theory Spec2Isabelle
  imports Complex_Main "HOL-Library.Word" "HOL-Library.Log_Nat"
begin

section \<open>Go's float64, as far as the sampler uses it\<close>

text \<open>
  A \<open>float64\<close> is a NaN, an infinity, a zero with a sign, or a finite non-zero value.
  \<open>Fin q\<close> denotes the value \<open>q\<close> (\<open>Fin 0\<close> is \<open>+0\<close>), \<open>NZero\<close> is \<open>-0\<close>.
  Arithmetic is IEEE 754 binary64 with round-to-nearest-even, which the Go specification
  prescribes: the exact rational result is rounded by \<open>round64\<close>.
\<close>

datatype f64 = NaN | PInf | NInf | NZero | Fin rat

definition val :: "f64 \<Rightarrow> rat" where
  "val v = (case v of Fin q \<Rightarrow> q | _ \<Rightarrow> 0)"

definition is_inf :: "f64 \<Rightarrow> bool" where
  "is_inf v = (v = PInf \<or> v = NInf)"

definition is_zero :: "f64 \<Rightarrow> bool" where
  "is_zero v = (v = NZero \<or> v = Fin 0)"

definition is_neg :: "f64 \<Rightarrow> bool" where
  "is_neg v = (case v of NInf \<Rightarrow> True | NZero \<Rightarrow> True | Fin q \<Rightarrow> q < 0 | _ \<Rightarrow> False)"

definition signed_zero :: "bool \<Rightarrow> f64" where
  "signed_zero neg = (if neg then NZero else Fin 0)"

definition signed_inf :: "bool \<Rightarrow> f64" where
  "signed_inf neg = (if neg then NInf else PInf)"

text \<open>\<open>ilog2 q\<close> is the binary exponent of a positive \<open>q\<close>: \<open>2 ^ e \<le> q < 2 ^ (e + 1)\<close>.\<close>

definition ilog2 :: "rat \<Rightarrow> int" where
  "ilog2 q = (case quotient_of q of (a, b) \<Rightarrow>
     let d = bitlen a - bitlen b
     in if power_int 2 d \<le> q then d else d - 1)"

definition round_even :: "rat \<Rightarrow> int" where
  "round_even t = (let n = \<lfloor>t\<rfloor>; d = t - of_int n
     in if d < 1 / 2 then n else if 1 / 2 < d then n + 1
        else if even n then n else n + 1)"

text \<open>
  Rounding to binary64: 53 bits of precision, least normal exponent \<open>-1022\<close>, overflow
  to an infinity from \<open>2 ^ 1024\<close> on, underflow to a zero that keeps the sign.
\<close>

definition round64 :: "rat \<Rightarrow> f64" where
  "round64 q = (if q = 0 then Fin 0 else
     let a = \<bar>q\<bar>; e = max (ilog2 a) (- 1022); u = power_int 2 (e - 52);
         m = of_int (round_even (a / u)) * u
     in if power_int 2 1024 \<le> m then signed_inf (q < 0)
        else if m = 0 then signed_zero (q < 0)
        else Fin (if 0 < q then m else - m))"

definition f64_sub :: "f64 \<Rightarrow> f64 \<Rightarrow> f64" where
  "f64_sub a b =
     (if a = NaN \<or> b = NaN then NaN
      else if a = PInf then (if b = PInf then NaN else PInf)
      else if a = NInf then (if b = NInf then NaN else NInf)
      else if b = PInf then NInf
      else if b = NInf then PInf
      else if val a = val b then (if a = NZero \<and> b = Fin 0 then NZero else Fin 0)
      else round64 (val a - val b))"

definition f64_mul :: "f64 \<Rightarrow> f64 \<Rightarrow> f64" where
  "f64_mul a b =
     (if a = NaN \<or> b = NaN then NaN
      else if (is_inf a \<and> is_zero b) \<or> (is_zero a \<and> is_inf b) then NaN
      else if is_inf a \<or> is_inf b then signed_inf (is_neg a \<noteq> is_neg b)
      else if val a * val b = 0 then signed_zero (is_neg a \<noteq> is_neg b)
      else round64 (val a * val b))"

definition f64_div :: "f64 \<Rightarrow> f64 \<Rightarrow> f64" where
  "f64_div a b =
     (if a = NaN \<or> b = NaN then NaN
      else if (is_inf a \<and> is_inf b) \<or> (is_zero a \<and> is_zero b) then NaN
      else if is_inf a then signed_inf (is_neg a \<noteq> is_neg b)
      else if is_inf b then signed_zero (is_neg a \<noteq> is_neg b)
      else if is_zero b then signed_inf (is_neg a \<noteq> is_neg b)
      else if is_zero a then signed_zero (is_neg a \<noteq> is_neg b)
      else round64 (val a / val b))"

text \<open>
  Comparisons are exact. Every comparison with a NaN is false except \<open>!=\<close>, and the two
  zeros are equal.
\<close>

definition f64_lt :: "f64 \<Rightarrow> f64 \<Rightarrow> bool" where
  "f64_lt a b =
     (if a = NaN \<or> b = NaN then False
      else if a = PInf \<or> b = NInf then False
      else if a = NInf \<or> b = PInf then True
      else val a < val b)"

definition f64_gt :: "f64 \<Rightarrow> f64 \<Rightarrow> bool" where
  "f64_gt a b = f64_lt b a"

definition f64_le :: "f64 \<Rightarrow> f64 \<Rightarrow> bool" where
  "f64_le a b =
     (if a = NaN \<or> b = NaN then False
      else if a = NInf \<or> b = PInf then True
      else if a = PInf \<or> b = NInf then False
      else val a \<le> val b)"

definition f64_eq :: "f64 \<Rightarrow> f64 \<Rightarrow> bool" where
  "f64_eq a b =
     (if a = NaN \<or> b = NaN then False
      else if is_inf a \<or> is_inf b then a = b
      else val a = val b)"

definition f64_ne :: "f64 \<Rightarrow> f64 \<Rightarrow> bool" where
  "f64_ne a b = (\<not> f64_eq a b)"

text \<open>\<open>math.Floor\<close>: the zeros, the infinities and NaN are returned as they are.\<close>

definition math_Floor :: "f64 \<Rightarrow> f64" where
  "math_Floor v = (case v of Fin q \<Rightarrow> Fin (of_int \<lfloor>q\<rfloor>) | _ \<Rightarrow> v)"

section \<open>What the platform decides\<close>

text \<open>
  \<open>*rand.Rand\<close>: a generator is the sequence of values its \<open>Float64\<close> will return and the
  number of values already drawn.
\<close>

record Rand =
  draws :: "nat \<Rightarrow> f64"
  used :: nat

definition Float64 :: "Rand \<Rightarrow> f64 \<times> Rand" where
  "Float64 g = (draws g (used g), g\<lparr>used := Suc (used g)\<rparr>)"

text \<open>
  Three things are fixed outside the package and are parameters of the model:
  \<^item> \<open>mathLog\<close>: the result of \<open>math.Log\<close> on a positive finite argument other than 1;
  \<^item> \<open>convOutOfRange\<close>: the result of a conversion \<open>uint32(x)\<close> when \<open>x\<close> cannot be
    represented, which the Go specification leaves to the implementation;
  \<^item> \<open>timeSeeded\<close>: the generator \<open>rand.New(rand.NewSource(time.Now().UnixNano()))\<close>.
\<close>

record platform =
  mathLog :: "f64 \<Rightarrow> f64"
  convOutOfRange :: "f64 \<Rightarrow> 32 word"
  timeSeeded :: Rand

text \<open>
  \<open>math.Log\<close> with its documented special cases: \<open>Log(+Inf) = +Inf\<close>, \<open>Log(0) = -Inf\<close>,
  \<open>Log(x < 0) = NaN\<close>, \<open>Log(NaN) = NaN\<close>; and \<open>Log(1) = +0\<close> exactly.
\<close>

definition math_Log :: "platform \<Rightarrow> f64 \<Rightarrow> f64" where
  "math_Log P v =
     (case v of
        NaN \<Rightarrow> NaN
      | PInf \<Rightarrow> PInf
      | NInf \<Rightarrow> NaN
      | NZero \<Rightarrow> NInf
      | Fin q \<Rightarrow> if q < 0 then NaN else if q = 0 then NInf
                 else if q = 1 then Fin 0 else mathLog P v)"

definition MaxUint32 :: int where
  "MaxUint32 = 4294967295"

text \<open>
  The conversion \<open>uint32(x)\<close> of a \<open>float64\<close>: the fraction is discarded; a value that
  \<open>uint32\<close> cannot represent gives an implementation-dependent result.
\<close>

definition representable :: "f64 \<Rightarrow> bool" where
  "representable v = (case v of Fin q \<Rightarrow> - 1 < q \<and> q < of_int MaxUint32 + 1 | NZero \<Rightarrow> True | _ \<Rightarrow> False)"

definition uint32 :: "platform \<Rightarrow> f64 \<Rightarrow> 32 word" where
  "uint32 P v =
     (if representable v then word_of_int (if 0 \<le> val v then \<lfloor>val v\<rfloor> else \<lceil>val v\<rceil>)
      else convOutOfRange P v)"

section \<open>The sampler\<close>

text \<open>
  The package has one error, the \<open>fmt.Errorf("invalid probability")\<close> of \<open>New\<close>.
\<close>

datatype error = InvalidProbability

text \<open>
  The struct \<open>FastBernoulli\<close>. The field \<open>r\<close> is the state of the generator the sampler
  draws from; \<open>skipCount\<close> is a \<open>uint32\<close>.
\<close>

record FastBernoulli =
  probability :: f64
  invLogNotProbability :: f64
  r :: Rand
  skipCount :: "32 word"

text \<open>
  \<open>resetSkipCount\<close>: the \<open>switch\<close> on the probability compares with \<open>==\<close>; the common case
  draws one value, and converts the floored product only when it is \<open><= math.MaxUint32\<close>.
\<close>

definition resetSkipCount :: "platform \<Rightarrow> FastBernoulli \<Rightarrow> FastBernoulli" where
  "resetSkipCount P f =
     (if f64_eq (probability f) (Fin 0) then f\<lparr>skipCount := word_of_int MaxUint32\<rparr>
      else if f64_eq (probability f) (Fin 1) then f\<lparr>skipCount := 0\<rparr>
      else
        (case Float64 (r f) of (x, g) \<Rightarrow>
           let sc = math_Floor (f64_mul (math_Log P x) (invLogNotProbability f))
           in if f64_le sc (Fin (of_int MaxUint32))
              then f\<lparr>r := g, skipCount := uint32 P sc\<rparr>
              else f\<lparr>r := g, skipCount := word_of_int MaxUint32\<rparr>))"

text \<open>
  \<open>New\<close>: the range check, the default generator when \<open>r == nil\<close> (here \<open>None\<close>), the
  cached \<open>1 / math.Log(1.0 - probability)\<close>, and the first \<open>resetSkipCount\<close>.
\<close>

definition New :: "platform \<Rightarrow> f64 \<Rightarrow> Rand option \<Rightarrow> error + FastBernoulli" where
  "New P p src =
     (if f64_lt p (Fin 0) \<or> f64_gt p (Fin 1) then Inl InvalidProbability
      else
        let g = (case src of None \<Rightarrow> timeSeeded P | Some s \<Rightarrow> s)
        in Inr (resetSkipCount P
             \<lparr>probability = p,
              invLogNotProbability = f64_div (Fin 1) (math_Log P (f64_sub (Fin 1) p)),
              r = g,
              skipCount = 0\<rparr>))"

text \<open>
  The struct literal of \<open>New\<close>, as it is before the first \<open>resetSkipCount\<close>.
\<close>

definition fresh :: "platform \<Rightarrow> f64 \<Rightarrow> Rand option \<Rightarrow> FastBernoulli" where
  "fresh P p src =
     \<lparr>probability = p,
      invLogNotProbability = f64_div (Fin 1) (math_Log P (f64_sub (Fin 1) p)),
      r = (case src of None \<Rightarrow> timeSeeded P | Some s \<Rightarrow> s),
      skipCount = 0\<rparr>"

text \<open>\<open>Trial\<close> and \<open>MultiTrial\<close> return their result together with the state they leave.\<close>

definition Trial :: "platform \<Rightarrow> FastBernoulli \<Rightarrow> bool \<times> FastBernoulli" where
  "Trial P f =
     (if 0 < skipCount f then (False, f\<lparr>skipCount := skipCount f - 1\<rparr>)
      else (case resetSkipCount P f of f' \<Rightarrow> (f64_ne (probability f') (Fin 0), f')))"

definition MultiTrial :: "platform \<Rightarrow> 32 word \<Rightarrow> FastBernoulli \<Rightarrow> bool \<times> FastBernoulli" where
  "MultiTrial P n f =
     (if n < skipCount f then (False, f\<lparr>skipCount := skipCount f - n\<rparr>)
      else (case resetSkipCount P f of f' \<Rightarrow> (f64_ne (probability f') (Fin 0), f')))"

definition Probability :: "FastBernoulli \<Rightarrow> f64" where
  "Probability f = probability f"

definition SkipCount :: "FastBernoulli \<Rightarrow> 32 word" where
  "SkipCount f = skipCount f"

section \<open>Sequences of calls\<close>

datatype call = CTrial | CMultiTrial "32 word"

fun perform :: "platform \<Rightarrow> call \<Rightarrow> FastBernoulli \<Rightarrow> bool \<times> FastBernoulli" where
  "perform P CTrial f = Trial P f"
| "perform P (CMultiTrial n) f = MultiTrial P n f"

text \<open>The state after a list of calls, made in order.\<close>

fun after :: "platform \<Rightarrow> call list \<Rightarrow> FastBernoulli \<Rightarrow> FastBernoulli" where
  "after P [] f = f"
| "after P (c # cs) f = after P cs (snd (perform P c f))"

text \<open>
  \<open>trials P n f\<close> calls \<open>Trial\<close> exactly \<open>n\<close> times from state \<open>f\<close> and returns whether any
  call returned true, with the final state.
\<close>

fun trials :: "platform \<Rightarrow> nat \<Rightarrow> FastBernoulli \<Rightarrow> bool \<times> FastBernoulli" where
  "trials P 0 f = (False, f)"
| "trials P (Suc n) f =
     (case Trial P f of (b, f') \<Rightarrow> (case trials P n f' of (b', f'') \<Rightarrow> (b \<or> b', f'')))"

text \<open>
  The value the specification calls \<open>raw\<close>: the floor of the logarithm of the next draw
  times the cached factor, before any conversion.
\<close>

definition raw_skip :: "platform \<Rightarrow> FastBernoulli \<Rightarrow> f64" where
  "raw_skip P f =
     math_Floor (f64_mul (math_Log P (draws (r f) (used (r f)))) (invLogNotProbability f))"

section \<open>Concrete inputs\<close>

text \<open>
  For evaluating the model on concrete inputs: a generator that returns the same value
  forever, and a platform whose \<open>math.Log\<close> is only the first-order term \<open>x - 1\<close>, whose
  out-of-range conversion gives 0 and whose time-seeded generator always returns one half.
  The theorems below hold for every platform; this one only supplies closed instances.
\<close>

definition constant_source :: "f64 \<Rightarrow> Rand" where
  "constant_source x = \<lparr>draws = (\<lambda>i. x), used = 0\<rparr>"

definition toy_platform :: platform where
  "toy_platform =
     \<lparr>mathLog = (\<lambda>v. Fin (val v - 1)),
      convOutOfRange = (\<lambda>v. 0),
      timeSeeded = constant_source (Fin (1 / 2))\<rparr>"

text \<open>
  A state of a sampler of probability 0 with three events left to skip, as it is after
  \<open>New\<close> and one \<open>MultiTrial(MaxUint32 - 3)\<close>.
\<close>

definition three_left :: FastBernoulli where
  "three_left =
     \<lparr>probability = Fin 0, invLogNotProbability = PInf,
      r = constant_source (Fin (1 / 2)), skipCount = 3\<rparr>"

text \<open>
  The sampler \<open>New\<close> returns on that platform for probability one half and the default
  generator: one value drawn, one event left to skip.
\<close>

definition one_left :: FastBernoulli where
  "one_left =
     \<lparr>probability = Fin (1 / 2), invLogNotProbability = Fin (- 2),
      r = \<lparr>draws = (\<lambda>i. Fin (1 / 2)), used = 1\<rparr>, skipCount = 1\<rparr>"

section \<open>Rounding\<close>

text \<open>
  \<open>ilog2\<close> is characterised by its bounds, a value within one half of an integer rounds
  to it, and \<open>round64\<close> returns every normal binary64 value unchanged. A probability below
  \<open>2 ^ (- 54)\<close> is lost in \<open>1.0 - probability\<close>.
\<close>

lemma two_powi_less_exp:
  "power_int (2 :: rat) m < power_int 2 n \<Longrightarrow> m < n"
proof (rule ccontr)
  assume a: "power_int (2 :: rat) m < power_int 2 n" and "\<not> m < n"
  then have "n \<le> m" by simp
  then have "power_int (2 :: rat) n \<le> power_int 2 m"
    by (rule power_int_increasing) simp
  with a show False by simp
qed

lemma bitlen_rat_bounds:
  assumes "0 < a"
  shows "power_int (2 :: rat) (bitlen a - 1) \<le> of_int a"
    and "(of_int a :: rat) < power_int 2 (bitlen a)"
proof -
  from bitlen_bounds [OF assms]
  have lo: "2 ^ nat (bitlen a - 1) \<le> a" and hi: "a < 2 ^ nat (bitlen a)"
    by simp_all
  have ge1: "1 \<le> bitlen a"
    using assms bitlen_eq_zero_iff [of a] bitlen_nonneg [of a] by linarith
  have "(of_int (2 ^ nat (bitlen a - 1)) :: rat) \<le> of_int a"
    using lo by (simp only: of_int_le_iff)
  then show "power_int (2 :: rat) (bitlen a - 1) \<le> of_int a"
    using ge1 by (simp add: power_int_def)
  have "(of_int a :: rat) < of_int (2 ^ nat (bitlen a))"
    using hi by (simp only: of_int_less_iff)
  then show "(of_int a :: rat) < power_int 2 (bitlen a)"
    using ge1 by (simp add: power_int_def)
qed

lemma ilog2_eqI:
  assumes lo: "power_int 2 e \<le> q" and hi: "q < power_int 2 (e + 1)"
  shows "ilog2 q = e"
proof -
  have qpos: "0 < q"
    using lo by (rule less_le_trans [rotated]) simp
  obtain a b where ab: "quotient_of q = (a, b)" by (cases "quotient_of q")
  have bpos: "0 < b" using ab by (rule quotient_of_denom_pos)
  have q: "q = of_int a / of_int b" using ab by (rule quotient_of_div)
  have apos: "0 < a"
    using qpos bpos unfolding q by (simp add: zero_less_divide_iff)
  let ?d = "bitlen a - bitlen b"
  note A = bitlen_rat_bounds [OF apos] and B = bitlen_rat_bounds [OF bpos]
  have brat: "(0 :: rat) < of_int b" using bpos by simp
  have below: "power_int 2 (?d - 1) < q"
  proof -
    have "power_int (2 :: rat) (?d - 1) * of_int b < power_int 2 (?d - 1) * power_int 2 (bitlen b)"
      using B(2) by (intro mult_strict_left_mono) simp_all
    also have "\<dots> = power_int 2 (bitlen a - 1)"
      by (simp flip: power_int_add)
    also have "\<dots> \<le> of_int a" by (rule A(1))
    finally show ?thesis
      using brat unfolding q by (simp add: pos_less_divide_eq)
  qed
  have above: "q < power_int 2 (?d + 1)"
  proof -
    have "(of_int a :: rat) < power_int 2 (bitlen a)" by (rule A(2))
    also have "\<dots> = power_int 2 (?d + 1) * power_int 2 (bitlen b - 1)"
      by (simp flip: power_int_add)
    also have "\<dots> \<le> power_int 2 (?d + 1) * of_int b"
      using B(1) by (intro mult_left_mono) simp_all
    finally show ?thesis
      using brat unfolding q by (simp add: pos_divide_less_eq)
  qed
  show ?thesis
  proof (cases "power_int 2 ?d \<le> q")
    case True
    have "?d < e + 1"
      using True hi by (intro two_powi_less_exp) (rule le_less_trans)
    moreover have "e < ?d + 1"
      using lo above by (intro two_powi_less_exp) (rule le_less_trans)
    ultimately have "?d = e" by simp
    with True show ?thesis by (simp add: ilog2_def ab Let_def)
  next
    case False
    then have lt: "q < power_int 2 ?d" by simp
    have "e < ?d"
      using lo lt by (intro two_powi_less_exp) (rule le_less_trans)
    moreover have "?d - 1 < e + 1"
      using below hi by (intro two_powi_less_exp) (rule less_trans)
    ultimately have "?d - 1 = e" by simp
    with False show ?thesis by (simp add: ilog2_def ab Let_def)
  qed
qed

lemma round_even_near:
  assumes "\<bar>t - of_int n\<bar> < 1 / 2"
  shows "round_even t = n"
proof (cases "of_int n \<le> t")
  case True
  with assms have "t < of_int n + 1" by linarith
  with True have "\<lfloor>t\<rfloor> = n" by (intro floor_unique) simp_all
  moreover from True assms have "t - of_int n < 1 / 2" by linarith
  ultimately show ?thesis by (simp add: round_even_def Let_def)
next
  case False
  with assms have lo: "of_int (n - 1) \<le> t"
    by simp
  from False have hi: "t < of_int (n - 1) + 1"
    by simp
  from lo hi have fl: "\<lfloor>t\<rfloor> = n - 1" by (intro floor_unique)
  from False assms have "1 / 2 < t - of_int (n - 1)" by simp
  then show ?thesis by (simp add: round_even_def fl Let_def)
qed

lemma round_even_nonneg: "0 \<le> t \<Longrightarrow> 0 \<le> round_even t"
  by (simp add: round_even_def Let_def)

lemma round64_normal:
  assumes q: "q \<noteq> 0" and e: "ilog2 \<bar>q\<bar> = e" "- 1022 \<le> e"
    and n: "round_even (\<bar>q\<bar> / power_int 2 (e - 52)) = n" "0 < n"
    and m: "(of_int n :: rat) * power_int 2 (e - 52) < power_int 2 1024"
  shows "round64 q =
    Fin (if 0 < q then of_int n * power_int 2 (e - 52) else - (of_int n * power_int 2 (e - 52)))"
proof -
  have mx: "max e (- 1022) = e" using e(2) by simp
  have nz: "of_int n * power_int (2 :: rat) (e - 52) \<noteq> 0" using n(2) by simp
  show ?thesis
    unfolding round64_def Let_def e(1) mx n(1)
    using m nz q by (simp only: if_False if_True not_le [symmetric] simp_thms)
qed

lemma round64_exact:
  assumes n: "2 ^ 52 \<le> \<bar>n\<bar>" "\<bar>n\<bar> < 2 ^ 53" and e: "- 1022 \<le> e" "e \<le> 1023"
  shows "round64 (of_int n * power_int 2 (e - 52)) = Fin (of_int n * power_int 2 (e - 52))"
proof -
  define u :: rat where "u = power_int 2 (e - 52)"
  define k :: rat where "k = of_int \<bar>n\<bar>"
  define q :: rat where "q = of_int n * u"
  have upos: "0 < u" by (simp add: u_def)
  have nn: "n \<noteq> 0" using n(1) by auto
  have a: "\<bar>q\<bar> = k * u" using upos by (simp add: q_def k_def abs_mult)
  have "(of_int (2 ^ 52) :: rat) \<le> of_int \<bar>n\<bar>" using n(1) by (simp only: of_int_le_iff)
  then have k1: "power_int 2 52 \<le> k" by (simp add: k_def)
  have "(of_int \<bar>n\<bar> :: rat) < of_int (2 ^ 53)" using n(2) by (simp only: of_int_less_iff)
  then have k2: "k < power_int 2 53" by (simp add: k_def)
  have "power_int 2 e = power_int (2 :: rat) 52 * u"
  proof -
    have "power_int (2 :: rat) (52 + (e - 52)) = power_int 2 52 * power_int 2 (e - 52)"
      by (rule power_int_add) simp
    moreover have "52 + (e - 52) = e" by simp
    ultimately show ?thesis unfolding u_def by (simp only:)
  qed
  also have "\<dots> \<le> k * u"
    using k1 upos by (intro mult_right_mono) simp_all
  finally have lo: "power_int 2 e \<le> \<bar>q\<bar>" unfolding a .
  have "k * u < power_int 2 53 * u"
    using k2 upos by (intro mult_strict_right_mono) simp_all
  also have "\<dots> = power_int 2 (e + 1)"
  proof -
    have "power_int (2 :: rat) (53 + (e - 52)) = power_int 2 53 * power_int 2 (e - 52)"
      by (rule power_int_add) simp
    moreover have "53 + (e - 52) = e + 1" by simp
    ultimately show ?thesis unfolding u_def by (simp only:)
  qed
  finally have hi: "\<bar>q\<bar> < power_int 2 (e + 1)" unfolding a .
  have il: "ilog2 \<bar>q\<bar> = e" using lo hi by (rule ilog2_eqI)
  have "\<bar>q\<bar> / u = of_int \<bar>n\<bar>" unfolding a using upos by (simp add: k_def)
  then have re: "round_even (\<bar>q\<bar> / power_int 2 (e - 52)) = \<bar>n\<bar>"
    unfolding u_def by (simp add: round_even_near)
  have "power_int (2 :: rat) (e + 1) \<le> power_int 2 1024"
    using e(2) by (intro power_int_increasing) simp_all
  with hi have top: "(of_int \<bar>n\<bar> :: rat) * power_int 2 (e - 52) < power_int 2 1024"
    unfolding a k_def u_def by (rule less_le_trans)
  have qn: "q \<noteq> 0" using nn upos by (simp add: q_def)
  have pn: "0 < \<bar>n\<bar>" using nn by simp
  have "round64 q = Fin (if 0 < q then of_int \<bar>n\<bar> * power_int 2 (e - 52)
      else - (of_int \<bar>n\<bar> * power_int 2 (e - 52)))"
    using qn il e(1) re pn top by (rule round64_normal)
  also have "(if 0 < q then of_int \<bar>n\<bar> * power_int 2 (e - 52)
      else - (of_int \<bar>n\<bar> * power_int 2 (e - 52))) = q"
    using upos nn unfolding q_def u_def [symmetric]
    by (cases "0 < n") (simp_all add: zero_less_mult_iff)
  finally show ?thesis unfolding q_def u_def .
qed

lemma round64_of_positive:
  assumes "0 < q"
  shows "round64 q = PInf \<or> (\<exists>m. round64 q = Fin m \<and> 0 \<le> m)"
proof -
  define u :: rat where "u = power_int 2 (max (ilog2 \<bar>q\<bar>) (- 1022) - 52)"
  define m :: rat where "m = of_int (round_even (\<bar>q\<bar> / u)) * u"
  have upos: "0 < u" by (simp add: u_def)
  have "0 \<le> round_even (\<bar>q\<bar> / u)"
    using upos by (intro round_even_nonneg) simp
  then have mpos: "0 \<le> m" using upos by (simp add: m_def)
  have "round64 q = (if power_int 2 1024 \<le> m then PInf else if m = 0 then Fin 0 else Fin m)"
    using assms by (simp add: round64_def Let_def u_def m_def signed_inf_def signed_zero_def)
  with mpos show ?thesis by auto
qed

lemma one_minus_tiny:
  assumes "0 < p" "p < 1 / 2 ^ 54"
  shows "round64 (1 - p) = Fin 1"
proof -
  have p2: "p < 1 / 2" using assms(2) by (rule less_trans) simp
  have e: "ilog2 (1 - p) = - 1"
    using assms(1) p2 by (intro ilog2_eqI) (simp_all add: power_int_minus)
  have pw: "power_int (2 :: rat) (- 1 - 52) = 1 / 2 ^ 53"
    by (simp add: power_int_minus_divide)
  have "p * 2 ^ 53 < 1 / 2 ^ 54 * 2 ^ 53"
    using assms(2) by (intro mult_strict_right_mono) simp_all
  then have "p * 2 ^ 53 < 1 / 2" by simp
  then have "\<bar>(1 - p) / power_int 2 (- 1 - 52) - of_int (2 ^ 53)\<bar> < 1 / 2"
    using assms(1) unfolding pw by (simp add: algebra_simps)
  then have n: "round_even ((1 - p) / power_int 2 (- 1 - 52)) = 2 ^ 53"
    by (rule round_even_near)
  have q: "1 - p \<noteq> 0" "\<bar>1 - p\<bar> = 1 - p" "0 < 1 - p" using p2 by simp_all
  have e': "ilog2 \<bar>1 - p\<bar> = - 1" unfolding q(2) by (rule e)
  have n': "round_even (\<bar>1 - p\<bar> / power_int 2 (- 1 - 52)) = 2 ^ 53" unfolding q(2) by (rule n)
  have top: "(of_int (2 ^ 53) :: rat) * power_int 2 (- 1 - 52) < power_int 2 1024"
    unfolding pw by simp
  have "round64 (1 - p) = Fin (if 0 < 1 - p then of_int (2 ^ 53) * power_int 2 (- 1 - 52)
      else - (of_int (2 ^ 53) * power_int 2 (- 1 - 52)))"
    using q(1) e' _ n' _ top by (rule round64_normal) simp_all
  then show ?thesis using q(3) by (simp add: pw)
qed

lemma round64_examples:
  "round64 (1 / 2) = Fin (1 / 2)"
  "round64 1 = Fin 1"
  "round64 (- 2) = Fin (- 2)"
  using round64_exact [of "2 ^ 52" "- 1"] round64_exact [of "2 ^ 52" 0]
    round64_exact [of "- (2 ^ 52)" 1]
  by (simp_all add: power_int_minus_divide)

lemma f64_mul_PInf_negative:
  "f64_lt x (Fin 0) \<Longrightarrow> f64_mul x PInf = NInf"
  by (cases x)
    (simp_all add: f64_lt_def f64_mul_def is_inf_def is_zero_def is_neg_def signed_inf_def
      val_def)

section \<open>Facts shared by the proofs\<close>

lemma resetSkipCount_probability:
  "probability (resetSkipCount P f) = probability f"
  by (simp add: resetSkipCount_def Let_def split: prod.splits)

lemma resetSkipCount_invLog:
  "invLogNotProbability (resetSkipCount P f) = invLogNotProbability f"
  by (simp add: resetSkipCount_def Let_def split: prod.splits)

lemma perform_probability:
  "probability (snd (perform P c f)) = probability f"
  by (cases c) (simp_all add: Trial_def MultiTrial_def resetSkipCount_probability)

lemma after_probability:
  "probability (after P cs f) = probability f"
  by (induction cs arbitrary: f) (simp_all add: perform_probability)

lemma Trial_probability: "probability (snd (Trial P f)) = probability f"
  by (simp add: Trial_def resetSkipCount_probability)

lemma resetSkipCount_never:
  "f64_eq (probability f) (Fin 0) \<Longrightarrow>
     resetSkipCount P f = f\<lparr>skipCount := word_of_int MaxUint32\<rparr>"
  by (simp add: resetSkipCount_def)

lemma f64_eq_one_not_zero:
  "f64_eq p (Fin 1) \<Longrightarrow> \<not> f64_eq p (Fin 0)"
  by (auto simp: f64_eq_def is_inf_def val_def split: f64.splits if_splits)

lemma resetSkipCount_always:
  "f64_eq (probability f) (Fin 1) \<Longrightarrow> resetSkipCount P f = f\<lparr>skipCount := 0\<rparr>"
  by (simp add: resetSkipCount_def f64_eq_one_not_zero)

lemma strictly_between:
  "f64_lt (Fin 0) p \<Longrightarrow> f64_lt p (Fin 1) \<Longrightarrow> \<not> f64_eq p (Fin 0) \<and> \<not> f64_eq p (Fin 1)"
  by (auto simp: f64_lt_def f64_eq_def is_inf_def val_def split: if_splits)

lemma Trial_never:
  "f64_eq (probability f) (Fin 0) \<Longrightarrow> \<not> fst (Trial P f)"
  by (simp add: Trial_def resetSkipCount_probability f64_ne_def)

lemma New_ok:
  "\<not> f64_lt p (Fin 0) \<Longrightarrow> \<not> f64_gt p (Fin 1) \<Longrightarrow>
     New P p src = Inr (resetSkipCount P
       \<lparr>probability = p,
        invLogNotProbability = f64_div (Fin 1) (math_Log P (f64_sub (Fin 1) p)),
        r = (case src of None \<Rightarrow> timeSeeded P | Some s \<Rightarrow> s),
        skipCount = 0\<rparr>)"
  by (simp add: New_def)

lemma f64_eq_zero_range:
  "f64_eq p (Fin 0) \<Longrightarrow> \<not> f64_lt p (Fin 0) \<and> \<not> f64_gt p (Fin 1)"
  by (auto simp: f64_eq_def f64_lt_def f64_gt_def is_inf_def val_def split: f64.splits if_splits)

lemma f64_eq_one_range:
  "f64_eq p (Fin 1) \<Longrightarrow> \<not> f64_lt p (Fin 0) \<and> \<not> f64_gt p (Fin 1)"
  by (auto simp: f64_eq_def f64_lt_def f64_gt_def is_inf_def val_def split: f64.splits if_splits)

lemma New_never:
  "f64_eq p (Fin 0) \<Longrightarrow>
     New P p src = Inr
       \<lparr>probability = p,
        invLogNotProbability = f64_div (Fin 1) (math_Log P (f64_sub (Fin 1) p)),
        r = (case src of None \<Rightarrow> timeSeeded P | Some s \<Rightarrow> s),
        skipCount = word_of_int MaxUint32\<rparr>"
  using f64_eq_zero_range [of p] by (simp add: New_ok resetSkipCount_never)

lemma New_always:
  "New P (Fin 1) src = Inr
       \<lparr>probability = Fin 1,
        invLogNotProbability = f64_div (Fin 1) (math_Log P (f64_sub (Fin 1) (Fin 1))),
        r = (case src of None \<Rightarrow> timeSeeded P | Some s \<Rightarrow> s),
        skipCount = 0\<rparr>"
proof -
  have e: "f64_eq (Fin 1) (Fin 1)" by (simp add: f64_eq_def is_inf_def)
  from f64_eq_one_range [OF e] show ?thesis
    by (simp add: New_ok resetSkipCount_always e)
qed

lemma after_always:
  "f64_eq (probability f) (Fin 1) \<Longrightarrow> skipCount f = 0 \<Longrightarrow> skipCount (after P cs f) = 0"
proof (induction cs arbitrary: f)
  case Nil
  then show ?case by simp
next
  case (Cons c cs)
  have "skipCount (snd (perform P c f)) = 0"
    using Cons.prems
    by (cases c) (simp_all add: Trial_def MultiTrial_def resetSkipCount_always)
  moreover have "f64_eq (probability (snd (perform P c f))) (Fin 1)"
    using Cons.prems by (simp add: perform_probability)
  ultimately show ?case using Cons.IH by simp
qed

lemma perform_never_source:
  "f64_eq (probability f) (Fin 0) \<Longrightarrow> r (snd (perform P c f)) = r f"
  by (cases c) (simp_all add: Trial_def MultiTrial_def resetSkipCount_never)

lemma after_never_source:
  "f64_eq (probability f) (Fin 0) \<Longrightarrow> r (after P cs f) = r f"
proof (induction cs arbitrary: f)
  case Nil
  show ?case by simp
next
  case (Cons c cs)
  have "f64_eq (probability (snd (perform P c f))) (Fin 0)"
    using Cons.prems by (simp add: perform_probability)
  from Cons.IH [OF this] show ?case
    using Cons.prems by (simp add: perform_never_source)
qed

lemma unat_pred: "0 < (w :: 32 word) \<Longrightarrow> unat (w - 1) = unat w - 1"
  by (simp add: unat_sub word_less_nat_alt word_le_nat_alt)

lemma trials_skip:
  "k \<le> unat (skipCount f) \<Longrightarrow>
     trials P k f = (False, f\<lparr>skipCount := skipCount f - of_nat k\<rparr>)"
proof (induction k arbitrary: f)
  case 0
  show ?case by simp
next
  case (Suc k)
  from Suc.prems have pos: "0 < skipCount f"
    by (simp add: word_less_nat_alt)
  have tr: "Trial P f = (False, f\<lparr>skipCount := skipCount f - 1\<rparr>)"
    using pos by (simp add: Trial_def)
  have "k \<le> unat (skipCount (f\<lparr>skipCount := skipCount f - 1\<rparr>))"
    using Suc.prems pos by (simp add: unat_pred)
  from Suc.IH [OF this] show ?case
    by (simp add: tr diff_diff_eq)
qed

lemma trials_never:
  "f64_eq (probability f) (Fin 0) \<Longrightarrow> \<not> fst (trials P k f)"
proof (induction k arbitrary: f)
  case 0
  show ?case by simp
next
  case (Suc k)
  have a: "\<not> fst (Trial P f)" using Suc.prems by (rule Trial_never)
  have "f64_eq (probability (snd (Trial P f))) (Fin 0)"
    using Suc.prems by (simp add: Trial_probability)
  from Suc.IH [OF this] a show ?case
    by (cases "Trial P f") (auto split: prod.splits)
qed

lemma trials_add:
  "trials P (a + b) f =
     (case trials P a f of (b1, f1) \<Rightarrow>
        (case trials P b f1 of (b2, f2) \<Rightarrow> (b1 \<or> b2, f2)))"
  by (induction a arbitrary: f) (auto split: prod.splits)

lemma trials_beyond:
  assumes "unat (skipCount f) < k"
  shows "fst (trials P k f) = f64_ne (probability f) (Fin 0)"
proof -
  let ?s = "unat (skipCount f)"
  obtain m where "k = Suc (?s + m)"
    using less_imp_Suc_add [OF assms] by blast
  then have k: "k = ?s + Suc m" by simp
  let ?f1 = "f\<lparr>skipCount := 0\<rparr>"
  have s: "trials P ?s f = (False, ?f1)" by (simp add: trials_skip)
  have t: "Trial P ?f1 = (f64_ne (probability f) (Fin 0), resetSkipCount P ?f1)"
    by (simp add: Trial_def resetSkipCount_probability)
  show ?thesis
  proof (cases "f64_eq (probability f) (Fin 0)")
    case True
    then have "\<not> fst (trials P k f)" by (rule trials_never)
    with True show ?thesis by (simp add: f64_ne_def)
  next
    case False
    then show ?thesis
      unfolding k trials_add s by (simp add: t f64_ne_def split: prod.splits)
  qed
qed

lemma uint32_in_range:
  assumes "f64_le (Fin 0) (math_Floor v)" "f64_le (math_Floor v) (Fin (of_int MaxUint32))"
  shows "of_int (uint (uint32 P (math_Floor v))) = val (math_Floor v)"
proof (cases v)
  case (Fin q)
  let ?n = "\<lfloor>q\<rfloor>"
  from assms Fin have lo: "0 \<le> ?n" and hi: "?n \<le> MaxUint32"
    by (simp_all add: math_Floor_def f64_le_def val_def)
  have "(- 1 :: rat) < of_int ?n"
    using lo by (metis less_le_trans neg_less_0_iff_less of_int_0_le_iff zero_less_one)
  moreover have "(of_int ?n :: rat) < of_int MaxUint32 + 1"
    using hi by (metis of_int_1 of_int_add of_int_less_iff zle_add1_eq_le zless_add1_eq)
  ultimately have rep: "representable (Fin (of_int ?n))"
    by (simp add: representable_def)
  have "uint (word_of_int ?n :: 32 word) = ?n"
    using lo hi by (simp add: uint_word_of_int MaxUint32_def)
  then show ?thesis
    using Fin rep lo by (simp add: math_Floor_def uint32_def val_def)
next
  case NZero
  then show ?thesis
    by (simp add: math_Floor_def uint32_def representable_def val_def)
qed (use assms in \<open>simp_all add: math_Floor_def f64_le_def\<close>)

lemma floor_negative_not_representable:
  "f64_lt (math_Floor v) (Fin 0) \<Longrightarrow> \<not> representable (math_Floor v)"
proof (cases v)
  case (Fin q)
  assume "f64_lt (math_Floor v) (Fin 0)"
  with Fin have "q < 0" by (simp add: math_Floor_def f64_lt_def val_def)
  then have "\<lfloor>q\<rfloor> < 0" by (simp add: floor_less_zero)
  then have "\<lfloor>q\<rfloor> \<le> - 1" by linarith
  then have "(of_int \<lfloor>q\<rfloor> :: rat) \<le> of_int (- 1)" by (simp only: of_int_le_iff)
  then have "\<not> (- 1 :: rat) < of_int \<lfloor>q\<rfloor>" by simp
  with Fin show ?thesis by (simp add: math_Floor_def representable_def)
qed (simp_all add: math_Floor_def f64_lt_def representable_def val_def)

lemma resetSkipCount_common:
  assumes "\<not> f64_eq (probability f) (Fin 0)" and "\<not> f64_eq (probability f) (Fin 1)"
  shows "resetSkipCount P f =
     f\<lparr>r := (r f)\<lparr>used := Suc (used (r f))\<rparr>,
       skipCount :=
         (if f64_le (raw_skip P f) (Fin (of_int MaxUint32))
          then (if f64_lt (raw_skip P f) (Fin 0) then convOutOfRange P (raw_skip P f)
                else word_of_int \<lfloor>val (raw_skip P f)\<rfloor>)
          else word_of_int MaxUint32)\<rparr>"
    and "f64_le (raw_skip P f) (Fin (of_int MaxUint32)) \<Longrightarrow> \<not> f64_lt (raw_skip P f) (Fin 0) \<Longrightarrow>
      of_int (uint (skipCount (resetSkipCount P f))) = val (raw_skip P f)"
proof -
  have eq: "resetSkipCount P f =
     f\<lparr>r := (r f)\<lparr>used := Suc (used (r f))\<rparr>,
       skipCount := (if f64_le (raw_skip P f) (Fin (of_int MaxUint32))
          then uint32 P (raw_skip P f) else word_of_int MaxUint32)\<rparr>"
    using assms by (simp add: resetSkipCount_def raw_skip_def Float64_def Let_def)
  have neg: "uint32 P (raw_skip P f) = convOutOfRange P (raw_skip P f)"
    if "f64_lt (raw_skip P f) (Fin 0)"
    using floor_negative_not_representable [of "f64_mul (math_Log P (draws (r f) (used (r f))))
      (invLogNotProbability f)"] that
    by (simp add: raw_skip_def uint32_def)
  have inr: "of_int (uint (uint32 P (raw_skip P f))) = val (raw_skip P f)"
    if "f64_le (raw_skip P f) (Fin (of_int MaxUint32))" "\<not> f64_lt (raw_skip P f) (Fin 0)"
  proof -
    have "f64_le (Fin 0) (raw_skip P f)"
      using that by (auto simp: f64_le_def f64_lt_def split: if_splits)
    then show ?thesis
      using that(1) unfolding raw_skip_def by (rule uint32_in_range)
  qed
  have nonneg: "uint32 P (raw_skip P f) = word_of_int \<lfloor>val (raw_skip P f)\<rfloor>"
    if "f64_le (raw_skip P f) (Fin (of_int MaxUint32))" "\<not> f64_lt (raw_skip P f) (Fin 0)"
  proof -
    have "word_of_int (uint (uint32 P (raw_skip P f))) = uint32 P (raw_skip P f)" by simp
    moreover have "(of_int (uint (uint32 P (raw_skip P f))) :: rat) = val (raw_skip P f)"
      using that by (rule inr)
    then have "\<lfloor>val (raw_skip P f)\<rfloor> = uint (uint32 P (raw_skip P f))"
      by (metis floor_of_int)
    ultimately show ?thesis by simp
  qed
  show "resetSkipCount P f =
     f\<lparr>r := (r f)\<lparr>used := Suc (used (r f))\<rparr>,
       skipCount :=
         (if f64_le (raw_skip P f) (Fin (of_int MaxUint32))
          then (if f64_lt (raw_skip P f) (Fin 0) then convOutOfRange P (raw_skip P f)
                else word_of_int \<lfloor>val (raw_skip P f)\<rfloor>)
          else word_of_int MaxUint32)\<rparr>"
    unfolding eq using neg nonneg by auto
  show "of_int (uint (skipCount (resetSkipCount P f))) = val (raw_skip P f)"
    if "f64_le (raw_skip P f) (Fin (of_int MaxUint32))" "\<not> f64_lt (raw_skip P f) (Fin 0)"
    using inr [OF that] that(1) unfolding eq by simp
qed

lemma New_fresh:
  "\<not> f64_lt p (Fin 0) \<Longrightarrow> \<not> f64_gt p (Fin 1) \<Longrightarrow>
     New P p src = Inr (resetSkipCount P (fresh P p src))"
  unfolding fresh_def by (rule New_ok)

section \<open>The model on the concrete inputs\<close>

lemma toy_Log_half: "math_Log toy_platform (Fin (1 / 2)) = Fin (- 1 / 2)"
  by (simp add: math_Log_def toy_platform_def val_def)

lemma toy_invLog_half:
  "f64_div (Fin 1) (math_Log toy_platform (f64_sub (Fin 1) (Fin (1 / 2)))) = Fin (- 2)"
  by (simp add: f64_sub_def f64_div_def val_def is_inf_def is_zero_def round64_examples
      toy_Log_half)

lemma toy_raw_half:
  "math_Floor (f64_mul (math_Log toy_platform (Fin (1 / 2))) (Fin (- 2))) = Fin 1"
  by (simp add: toy_Log_half f64_mul_def is_inf_def is_zero_def val_def round64_examples
      math_Floor_def)

lemma toy_raw_skip_one_left: "raw_skip toy_platform one_left = Fin 1"
  by (simp add: raw_skip_def one_left_def toy_raw_half)

lemma toy_fresh_half_raw:
  "raw_skip toy_platform (fresh toy_platform (Fin (1 / 2)) None) = Fin 1"
proof -
  have d: "draws (timeSeeded toy_platform) (used (timeSeeded toy_platform)) = Fin (1 / 2)"
    by (simp add: toy_platform_def constant_source_def)
  show ?thesis
    unfolding raw_skip_def fresh_def
    by (simp add: d toy_invLog_half toy_raw_half)
qed

lemma New_toy_half: "New toy_platform (Fin (1 / 2)) None = Inr one_left"
proof -
  have a: "\<not> f64_lt (Fin (1 / 2)) (Fin 0)" "\<not> f64_gt (Fin (1 / 2)) (Fin 1)"
    by (simp_all add: f64_lt_def f64_gt_def val_def)
  have b: "\<not> f64_eq (Fin (1 / 2)) (Fin 0)" "\<not> f64_eq (Fin (1 / 2)) (Fin 1)"
    by (simp_all add: f64_eq_def is_inf_def val_def)
  have t: "timeSeeded toy_platform = constant_source (Fin (1 / 2))"
    by (simp add: toy_platform_def)
  have le: "f64_le (Fin 1) (Fin (of_int MaxUint32))"
    by (simp add: f64_le_def val_def MaxUint32_def)
  have cv: "uint32 toy_platform (Fin 1) = 1"
    by (simp add: uint32_def representable_def val_def MaxUint32_def)
  show ?thesis
    unfolding New_ok [OF a] toy_invLog_half
    by (simp add: resetSkipCount_def b t constant_source_def Float64_def toy_raw_half le cv
        one_left_def)
qed

lemma three_left_reached:
  "\<not> isl (New toy_platform (Fin 0) None) \<and>
   snd (MultiTrial toy_platform 4294967292 (projr (New toy_platform (Fin 0) None))) = three_left"
proof -
  have z: "f64_eq (Fin 0) (Fin 0)" by (simp add: f64_eq_def is_inf_def)
  have i: "f64_div (Fin 1) (math_Log toy_platform (f64_sub (Fin 1) (Fin 0))) = PInf"
    by (simp add: f64_sub_def val_def round64_examples math_Log_def f64_div_def is_inf_def
        is_zero_def is_neg_def signed_inf_def)
  show ?thesis
    unfolding New_never [OF z] i
    by (simp add: MultiTrial_def MaxUint32_def three_left_def toy_platform_def)
qed

section \<open>MultiTrial(0)\<close>

text \<open>
  With events left to skip, \<open>MultiTrial(0)\<close> returns false and changes nothing.
\<close>

lemma MultiTrial_zero_skipping:
  "0 < skipCount f \<Longrightarrow> MultiTrial P 0 f = (False, f)"
  by (simp add: MultiTrial_def)

text \<open>
  C1. The claim is that \<open>MultiTrial(0)\<close> returns false and leaves \<open>skipCount\<close> as it was,
  in every state. The code compares \<open>n < skipCount\<close>, which is false at \<open>n = 0\<close> and
  \<open>skipCount = 0\<close>: there it derives a fresh skip count and returns \<open>probability != 0\<close>. A
  sampler of probability 1 is in that state right after \<open>New\<close>, and its \<open>MultiTrial(0)\<close>
  returns true.
\<close>

theorem MultiTrial_zero_accepts:
  "\<not> isl (New P (Fin 1) src) \<and>
   skipCount (projr (New P (Fin 1) src)) = 0 \<and>
   fst (MultiTrial P 0 (projr (New P (Fin 1) src)))"
  by (simp add: New_always MultiTrial_def resetSkipCount_probability f64_ne_def
      f64_eq_def is_inf_def val_def)

section \<open>The range check of New\<close>

text \<open>
  \<open>New\<close> fails exactly when \<open>probability < 0 || probability > 1\<close> holds, and on the
  specification's four examples it does what the specification says.
\<close>

lemma New_error_iff:
  "New P p src = Inl InvalidProbability \<longleftrightarrow> f64_lt p (Fin 0) \<or> f64_gt p (Fin 1)"
  by (simp add: New_def Let_def)

lemma New_fails_iff:
  "isl (New P p src) \<longleftrightarrow> f64_lt p (Fin 0) \<or> f64_gt p (Fin 1)"
  by (simp add: New_def Let_def)

lemma New_rejects_finite:
  "isl (New P (Fin q) src) \<longleftrightarrow> q < 0 \<or> 1 < q"
  by (simp add: New_fails_iff f64_lt_def f64_gt_def val_def)

lemma New_spec_examples:
  "New P (Fin (- 1 / 10)) src = Inl InvalidProbability"
  "New P (Fin (11 / 10)) src = Inl InvalidProbability"
  "\<not> isl (New P (Fin 0) src)"
  "\<not> isl (New P (Fin 1) src)"
  by (simp_all add: New_error_iff New_fails_iff f64_lt_def f64_gt_def val_def)

text \<open>
  C2. The claim adds that a NaN is rejected. Both comparisons with a NaN are false, so
  \<open>New\<close> accepts it: it returns a sampler of probability NaN, after one draw, whose cached
  factor is NaN and whose skip count is the maximum.
\<close>

theorem New_accepts_NaN:
  "New P NaN src = Inr
     \<lparr>probability = NaN, invLogNotProbability = NaN,
      r = (case src of None \<Rightarrow> timeSeeded P | Some s \<Rightarrow> s)
            \<lparr>used := Suc (used (case src of None \<Rightarrow> timeSeeded P | Some s \<Rightarrow> s))\<rparr>,
      skipCount = word_of_int MaxUint32\<rparr>"
  by (simp add: New_def resetSkipCount_def f64_lt_def f64_gt_def f64_eq_def f64_sub_def
      math_Log_def f64_div_def f64_mul_def math_Floor_def f64_le_def Float64_def Let_def)

section \<open>Probability 0\<close>

text \<open>
  C3, as claimed: with probability 0, \<open>skipCount\<close> is the maximum in every reachable
  state. It is not: one \<open>Trial\<close> after \<open>New\<close> leaves \<open>4294967294\<close>, one below the maximum
  \<open>4294967295\<close>.
\<close>

theorem zero_probability_counts_down:
  "\<not> isl (New toy_platform (Fin 0) None) \<and>
   skipCount (projr (New toy_platform (Fin 0) None)) = 4294967295 \<and>
   skipCount (after toy_platform [CTrial] (projr (New toy_platform (Fin 0) None))) = 4294967294"
proof -
  have "f64_eq (Fin 0) (Fin 0)" by (simp add: f64_eq_def is_inf_def)
  from New_never [OF this] show ?thesis
    by (simp add: Trial_def MaxUint32_def)
qed

text \<open>
  C3, as the code has it: with probability 0, \<open>skipCount\<close> is the maximum right after
  \<open>New\<close> and after every derivation; a \<open>Trial\<close> with events left to skip lowers it by one, a
  \<open>MultiTrial(n)\<close> with \<open>n < skipCount\<close> lowers it by \<open>n\<close>, and every other call sets it back
  to the maximum. No call draws from the random source.
\<close>

theorem zero_probability_skipCount:
  "f64_eq p (Fin 0) \<Longrightarrow>
     \<exists>f. New P p src = Inr f \<and> skipCount f = word_of_int MaxUint32 \<and>
       (\<forall>cs. r (after P cs f) = r f \<and>
          skipCount (resetSkipCount P (after P cs f)) = word_of_int MaxUint32 \<and>
          skipCount (snd (Trial P (after P cs f))) =
            (if 0 < skipCount (after P cs f) then skipCount (after P cs f) - 1
             else word_of_int MaxUint32) \<and>
          (\<forall>n. skipCount (snd (MultiTrial P n (after P cs f))) =
            (if n < skipCount (after P cs f) then skipCount (after P cs f) - n
             else word_of_int MaxUint32)))"
proof -
  assume z: "f64_eq p (Fin 0)"
  let ?f = "\<lparr>probability = p,
        invLogNotProbability = f64_div (Fin 1) (math_Log P (f64_sub (Fin 1) p)),
        r = (case src of None \<Rightarrow> timeSeeded P | Some s \<Rightarrow> s),
        skipCount = word_of_int MaxUint32\<rparr>"
  have pz: "f64_eq (probability ?f) (Fin 0)" using z by simp
  have "r (after P cs ?f) = r ?f \<and>
          skipCount (resetSkipCount P (after P cs ?f)) = word_of_int MaxUint32 \<and>
          skipCount (snd (Trial P (after P cs ?f))) =
            (if 0 < skipCount (after P cs ?f) then skipCount (after P cs ?f) - 1
             else word_of_int MaxUint32) \<and>
          (\<forall>n. skipCount (snd (MultiTrial P n (after P cs ?f))) =
            (if n < skipCount (after P cs ?f) then skipCount (after P cs ?f) - n
             else word_of_int MaxUint32))" for cs
  proof -
    have g: "f64_eq (probability (after P cs ?f)) (Fin 0)"
      using z by (simp add: after_probability)
    show ?thesis
      using after_never_source [OF pz, of P cs]
      by (simp add: Trial_def MultiTrial_def resetSkipCount_never [OF g])
  qed
  then show ?thesis
    by (intro exI [of _ ?f]) (simp add: New_never [OF z])
qed

theorem zero_probability_skipCount_witness:
  "f64_eq (Fin 0) (Fin 0) \<and>
   (\<exists>f. New toy_platform (Fin 0) None = Inr f \<and> skipCount f = word_of_int MaxUint32 \<and>
       (\<forall>cs. r (after toy_platform cs f) = r f \<and>
          skipCount (resetSkipCount toy_platform (after toy_platform cs f)) =
            word_of_int MaxUint32 \<and>
          skipCount (snd (Trial toy_platform (after toy_platform cs f))) =
            (if 0 < skipCount (after toy_platform cs f)
             then skipCount (after toy_platform cs f) - 1
             else word_of_int MaxUint32) \<and>
          (\<forall>n. skipCount (snd (MultiTrial toy_platform n (after toy_platform cs f))) =
            (if n < skipCount (after toy_platform cs f)
             then skipCount (after toy_platform cs f) - n
             else word_of_int MaxUint32))))"
  using zero_probability_skipCount [of "Fin 0" toy_platform None]
  by (simp add: f64_eq_def is_inf_def)

text \<open>
  C7. With probability 0, \<open>SkipCount()\<close> right after \<open>New\<close> is the maximum \<open>uint32\<close>, and
  \<open>Trial\<close> returns false in every state reached by any calls of \<open>Trial\<close> and \<open>MultiTrial\<close>.
\<close>

theorem never_sampler:
  "f64_eq p (Fin 0) \<Longrightarrow>
     \<exists>f. New P p src = Inr f \<and> SkipCount f = word_of_int MaxUint32 \<and>
       unat (SkipCount f) = 2 ^ 32 - 1 \<and>
       (\<forall>cs. \<not> fst (Trial P (after P cs f)))"
proof -
  assume z: "f64_eq p (Fin 0)"
  let ?f = "\<lparr>probability = p,
        invLogNotProbability = f64_div (Fin 1) (math_Log P (f64_sub (Fin 1) p)),
        r = (case src of None \<Rightarrow> timeSeeded P | Some s \<Rightarrow> s),
        skipCount = word_of_int MaxUint32\<rparr>"
  have "\<not> fst (Trial P (after P cs ?f))" for cs
    by (rule Trial_never) (simp add: after_probability z)
  then show ?thesis
    by (intro exI [of _ ?f]) (simp add: New_never [OF z] SkipCount_def MaxUint32_def)
qed

theorem never_sampler_witness:
  "f64_eq (Fin 0) (Fin 0) \<and>
   (\<exists>f. New toy_platform (Fin 0) None = Inr f \<and> SkipCount f = word_of_int MaxUint32 \<and>
      unat (SkipCount f) = 2 ^ 32 - 1 \<and>
      (\<forall>cs. \<not> fst (Trial toy_platform (after toy_platform cs f))))"
  using never_sampler [of "Fin 0" toy_platform None]
  by (simp add: f64_eq_def is_inf_def)

section \<open>Probability 1\<close>

text \<open>
  C6. With probability 1, \<open>skipCount\<close> is 0 right after \<open>New\<close>, and in every state reached
  by any calls of \<open>Trial\<close> and \<open>MultiTrial\<close> it is 0, \<open>Trial\<close> returns true and leaves it 0.
\<close>

theorem always_sampler:
  "\<exists>f. New P (Fin 1) src = Inr f \<and> skipCount f = 0 \<and> SkipCount f = 0 \<and>
     (\<forall>cs. skipCount (after P cs f) = 0 \<and>
        fst (Trial P (after P cs f)) \<and>
        skipCount (snd (Trial P (after P cs f))) = 0)"
proof -
  let ?f = "\<lparr>probability = Fin 1,
        invLogNotProbability = f64_div (Fin 1) (math_Log P (f64_sub (Fin 1) (Fin 1))),
        r = (case src of None \<Rightarrow> timeSeeded P | Some s \<Rightarrow> s),
        skipCount = 0\<rparr>"
  have e: "f64_eq (probability ?f) (Fin 1)" by (simp add: f64_eq_def is_inf_def)
  have z: "skipCount ?f = 0" by simp
  have "skipCount (after P cs ?f) = 0 \<and> fst (Trial P (after P cs ?f)) \<and>
        skipCount (snd (Trial P (after P cs ?f))) = 0" for cs
  proof -
    let ?g = "after P cs ?f"
    have g0: "skipCount ?g = 0" using e z by (rule after_always)
    have g1: "f64_eq (probability ?g) (Fin 1)" using e by (simp add: after_probability)
    have "Trial P ?g = (True, ?g\<lparr>skipCount := 0\<rparr>)"
      using g0 g1 f64_eq_one_not_zero [OF g1]
      by (simp add: Trial_def resetSkipCount_always f64_ne_def)
    with g0 show ?thesis by simp
  qed
  then show ?thesis
    by (intro exI [of _ ?f]) (simp add: New_always SkipCount_def)
qed

theorem always_sampler_witness:
  "\<exists>f. New toy_platform (Fin 1) None = Inr f \<and> skipCount f = 0 \<and> SkipCount f = 0 \<and>
     (\<forall>cs. skipCount (after toy_platform cs f) = 0 \<and>
        fst (Trial toy_platform (after toy_platform cs f)) \<and>
        skipCount (snd (Trial toy_platform (after toy_platform cs f))) = 0)"
  using always_sampler [of toy_platform None] by simp

section \<open>MultiTrial against repeated trials\<close>

text \<open>
  Away from the boundary \<open>n = skipCount\<close>, \<open>MultiTrial(n)\<close> returns what \<open>n\<close> calls of
  \<open>Trial\<close> return between them. Both runs draw from the same sequence.
\<close>

lemma MultiTrial_below:
  "n < skipCount f \<Longrightarrow> fst (MultiTrial P n f) = fst (trials P (unat n) f)"
  by (simp add: MultiTrial_def trials_skip word_less_nat_alt)

lemma MultiTrial_above:
  "skipCount f < n \<Longrightarrow> fst (MultiTrial P n f) = fst (trials P (unat n) f)"
proof -
  assume a: "skipCount f < n"
  then have "\<not> n < skipCount f" by simp
  then have "fst (MultiTrial P n f) = f64_ne (probability f) (Fin 0)"
    by (simp add: MultiTrial_def resetSkipCount_probability)
  moreover have "fst (trials P (unat n) f) = f64_ne (probability f) (Fin 0)"
    using a by (intro trials_beyond) (simp add: word_less_nat_alt)
  ultimately show ?thesis by simp
qed

lemma MultiTrial_refines_off_boundary:
  "n \<noteq> skipCount f \<Longrightarrow> fst (MultiTrial P n f) = fst (trials P (unat n) f)"
  using MultiTrial_below [of n f P] MultiTrial_above [of f n P]
  by (cases "n < skipCount f") auto

text \<open>
  C4. The claim is that \<open>MultiTrial(n)\<close> returns the disjunction of \<open>n\<close> calls of \<open>Trial\<close>,
  for every state and every \<open>n\<close>. At \<open>n = skipCount\<close> and a probability other than 0 the two
  differ: the \<open>n\<close> calls of \<open>Trial\<close> only count down and all return false, while
  \<open>MultiTrial(n)\<close> finds \<open>n < skipCount\<close> false and returns true.
\<close>

theorem MultiTrial_boundary:
  "f64_ne (probability f) (Fin 0) \<Longrightarrow>
     fst (MultiTrial P (skipCount f) f) \<and> \<not> fst (trials P (unat (skipCount f)) f)"
  by (simp add: MultiTrial_def resetSkipCount_probability trials_skip)

theorem MultiTrial_boundary_witness:
  "f64_ne (probability one_left) (Fin 0) \<and> skipCount one_left = 1 \<and>
   fst (MultiTrial toy_platform 1 one_left) \<and> \<not> fst (trials toy_platform 1 one_left)"
  using MultiTrial_boundary [of one_left toy_platform]
  by (simp add: one_left_def f64_ne_def f64_eq_def is_inf_def val_def)

section \<open>The fast path of Trial\<close>

text \<open>
  C5. In any state with \<open>skipCount > 0\<close>, \<open>Trial\<close> returns false, lowers \<open>skipCount\<close> by
  exactly one and leaves everything else, the random source included, as it was: no value
  is drawn.
\<close>

theorem Trial_skip:
  "0 < skipCount f \<Longrightarrow>
     Trial P f = (False, f\<lparr>skipCount := skipCount f - 1\<rparr>) \<and>
     unat (skipCount (snd (Trial P f))) = unat (skipCount f) - 1 \<and>
     unat (skipCount (snd (Trial P f))) < unat (skipCount f) \<and>
     used (r (snd (Trial P f))) = used (r f) \<and>
     r (snd (Trial P f)) = r f"
proof -
  assume pos: "0 < skipCount f"
  then have "skipCount f \<noteq> 0" by auto
  then have nz: "unat (skipCount f) \<noteq> 0" by (simp add: unat_eq_0)
  have "1 \<le> skipCount f" using pos by (simp add: word_less_nat_alt word_le_nat_alt)
  then have "unat (skipCount f - 1) = unat (skipCount f) - 1"
    by (simp add: unat_sub)
  with pos nz show ?thesis by (simp add: Trial_def)
qed

theorem Trial_skip_witness:
  "0 < skipCount three_left \<and>
   Trial toy_platform three_left = (False, three_left\<lparr>skipCount := 2\<rparr>) \<and>
   unat (skipCount (snd (Trial toy_platform three_left))) = 2 \<and>
   used (r (snd (Trial toy_platform three_left))) = 0"
  using Trial_skip [of three_left toy_platform]
  by (simp add: three_left_def constant_source_def)

section \<open>Construction\<close>

text \<open>
  C8. When \<open>New\<close> succeeds, the sampler it returns holds the probability and the cached
  factor \<open>1 / math.Log(1.0 - probability)\<close> in \<open>float64\<close> arithmetic, and the first
  skip-count derivation has been performed on it: \<open>skipCount\<close> is the maximum for probability
  0 and 0 for probability 1, with no value drawn; otherwise exactly one value has been drawn
  and \<open>skipCount\<close> is derived from it, \<open>raw\<close> itself when \<open>raw\<close> lies between 0 and the maximum,
  the maximum when \<open>raw\<close> is above it or a NaN, and the platform's conversion of a negative
  \<open>raw\<close>.
\<close>

theorem New_first_derivation:
  "\<not> f64_lt p (Fin 0) \<Longrightarrow> \<not> f64_gt p (Fin 1) \<Longrightarrow>
     \<exists>f. New P p src = Inr f \<and>
       f = resetSkipCount P (fresh P p src) \<and>
       probability f = p \<and>
       invLogNotProbability f = f64_div (Fin 1) (math_Log P (f64_sub (Fin 1) p)) \<and>
       draws (r f) = draws (case src of None \<Rightarrow> timeSeeded P | Some s \<Rightarrow> s) \<and>
       used (r f) = used (case src of None \<Rightarrow> timeSeeded P | Some s \<Rightarrow> s) +
         (if f64_eq p (Fin 0) \<or> f64_eq p (Fin 1) then 0 else 1) \<and>
       skipCount f =
         (if f64_eq p (Fin 0) then word_of_int MaxUint32
          else if f64_eq p (Fin 1) then 0
          else if f64_le (raw_skip P (fresh P p src)) (Fin (of_int MaxUint32))
            then (if f64_lt (raw_skip P (fresh P p src)) (Fin 0)
                  then convOutOfRange P (raw_skip P (fresh P p src))
                  else word_of_int \<lfloor>val (raw_skip P (fresh P p src))\<rfloor>)
          else word_of_int MaxUint32)"
proof -
  assume a: "\<not> f64_lt p (Fin 0)" and b: "\<not> f64_gt p (Fin 1)"
  let ?f0 = "fresh P p src"
  have pr: "probability ?f0 = p"
    and iv: "invLogNotProbability ?f0 = f64_div (Fin 1) (math_Log P (f64_sub (Fin 1) p))"
    and sr: "r ?f0 = (case src of None \<Rightarrow> timeSeeded P | Some s \<Rightarrow> s)"
    by (simp_all add: fresh_def)
  have n: "New P p src = Inr (resetSkipCount P ?f0)" using a b by (rule New_fresh)
  have u: "draws (r (resetSkipCount P ?f0)) = draws (r ?f0) \<and>
      used (r (resetSkipCount P ?f0)) =
        used (r ?f0) + (if f64_eq p (Fin 0) \<or> f64_eq p (Fin 1) then 0 else 1)"
    by (simp add: resetSkipCount_def Float64_def Let_def pr)
  have sc: "skipCount (resetSkipCount P ?f0) =
         (if f64_eq p (Fin 0) then word_of_int MaxUint32
          else if f64_eq p (Fin 1) then 0
          else if f64_le (raw_skip P ?f0) (Fin (of_int MaxUint32))
            then (if f64_lt (raw_skip P ?f0) (Fin 0) then convOutOfRange P (raw_skip P ?f0)
                  else word_of_int \<lfloor>val (raw_skip P ?f0)\<rfloor>)
          else word_of_int MaxUint32)"
  proof (cases "f64_eq p (Fin 0)")
    case True
    then show ?thesis by (simp add: resetSkipCount_never pr)
  next
    case z: False
    show ?thesis
    proof (cases "f64_eq p (Fin 1)")
      case True
      then show ?thesis using z by (simp add: resetSkipCount_always pr)
    next
      case False
      have c: "\<not> f64_eq (probability ?f0) (Fin 0)" "\<not> f64_eq (probability ?f0) (Fin 1)"
        using z False by (simp_all add: pr)
      show ?thesis
        using z False by (subst resetSkipCount_common(1) [OF c]) simp
    qed
  qed
  show ?thesis
    using u sc
    by (intro exI [of _ "resetSkipCount P ?f0"])
      (simp add: n resetSkipCount_probability resetSkipCount_invLog pr iv sr)
qed

theorem New_first_derivation_witness:
  "\<not> f64_lt (Fin (1 / 2)) (Fin 0) \<and> \<not> f64_gt (Fin (1 / 2)) (Fin 1) \<and>
   (\<exists>f. New toy_platform (Fin (1 / 2)) None = Inr f \<and>
      probability f = Fin (1 / 2) \<and>
      invLogNotProbability f = Fin (- 2) \<and>
      used (r f) = 1 \<and>
      skipCount f = 1)"
proof -
  have a: "\<not> f64_lt (Fin (1 / 2)) (Fin 0)" "\<not> f64_gt (Fin (1 / 2)) (Fin 1)"
    by (simp_all add: f64_lt_def f64_gt_def val_def)
  have b: "\<not> f64_eq (Fin (1 / 2)) (Fin 0)" "\<not> f64_eq (Fin (1 / 2)) (Fin 1)"
    by (simp_all add: f64_eq_def is_inf_def val_def)
  have le: "f64_le (Fin 1) (Fin (of_int MaxUint32))" "\<not> f64_lt (Fin 1) (Fin 0)"
    by (simp_all add: f64_le_def f64_lt_def val_def MaxUint32_def)
  have u: "used (timeSeeded toy_platform) = 0"
    by (simp add: toy_platform_def constant_source_def)
  from New_first_derivation [OF a, of toy_platform None] a show ?thesis
    by (auto simp add: b toy_fresh_half_raw le toy_invLog_half u val_def)
qed

section \<open>The skip-count derivation\<close>

text \<open>
  With a negative finite cached factor, which the comment on \<open>invLogNotProbability\<close>
  promises, and a draw whose logarithm is not positive, the conversion is only applied to
  a value \<open>uint32\<close> can represent, and the derivation clamps: \<open>skipCount\<close> is \<open>raw\<close> itself
  when \<open>raw <= math.MaxUint32\<close> and the maximum otherwise.
\<close>

lemma conversion_in_range:
  assumes inv: "invLogNotProbability f = Fin i" "i < 0"
    and lg: "\<not> f64_lt (Fin 0) (math_Log P (draws (r f) (used (r f))))"
    and le: "f64_le (raw_skip P f) (Fin (of_int MaxUint32))"
  shows "representable (raw_skip P f)"
proof (cases "math_Log P (draws (r f) (used (r f)))")
  case NaN
  with le inv show ?thesis
    by (simp add: raw_skip_def f64_mul_def math_Floor_def f64_le_def)
next
  case PInf
  with lg show ?thesis by (simp add: f64_lt_def)
next
  case NInf
  with le inv show ?thesis
    by (simp add: raw_skip_def f64_mul_def math_Floor_def f64_le_def is_inf_def is_zero_def
        is_neg_def signed_inf_def)
next
  case NZero
  with inv show ?thesis
    by (simp add: raw_skip_def f64_mul_def math_Floor_def is_inf_def is_zero_def
        is_neg_def signed_zero_def val_def representable_def MaxUint32_def)
next
  case (Fin l)
  with lg have l: "l \<le> 0" by (simp add: f64_lt_def val_def)
  show ?thesis
  proof (cases "l = 0")
    case True
    with Fin inv show ?thesis
      by (simp add: raw_skip_def f64_mul_def math_Floor_def is_inf_def is_zero_def
          is_neg_def signed_zero_def val_def representable_def MaxUint32_def)
  next
    case False
    with l have "l < 0" by simp
    with inv(2) have pos: "0 < l * i" by (simp add: zero_less_mult_iff)
    have nz: "l * i \<noteq> 0" using \<open>l < 0\<close> inv(2) by simp
    have raw: "raw_skip P f = math_Floor (round64 (l * i))"
      using Fin inv(1) nz by (simp add: raw_skip_def f64_mul_def is_inf_def is_zero_def val_def)
    from round64_of_positive [OF pos] show ?thesis
    proof
      assume "round64 (l * i) = PInf"
      with le raw show ?thesis by (simp add: math_Floor_def f64_le_def)
    next
      assume "\<exists>m. round64 (l * i) = Fin m \<and> 0 \<le> m"
      then obtain m where m: "round64 (l * i) = Fin m" "0 \<le> m" by blast
      from le have hi: "\<lfloor>m\<rfloor> \<le> MaxUint32"
        unfolding raw m(1) by (simp add: math_Floor_def f64_le_def val_def)
      have lo: "0 \<le> \<lfloor>m\<rfloor>" using m(2) by simp
      have "(- 1 :: rat) < of_int \<lfloor>m\<rfloor>"
        using lo by (metis less_le_trans neg_less_0_iff_less of_int_0_le_iff zero_less_one)
      moreover have "(of_int \<lfloor>m\<rfloor> :: rat) < of_int MaxUint32 + 1"
        using hi by (metis of_int_1 of_int_add of_int_less_iff zle_add1_eq_le)
      ultimately show ?thesis
        unfolding raw m(1) by (simp add: math_Floor_def representable_def)
    qed
  qed
qed

lemma derivation_clamps:
  assumes "\<not> f64_eq (probability f) (Fin 0)" and "\<not> f64_eq (probability f) (Fin 1)"
    and "invLogNotProbability f = Fin i" and "i < 0"
    and "\<not> f64_lt (Fin 0) (math_Log P (draws (r f) (used (r f))))"
  shows "skipCount (resetSkipCount P f) =
      (if f64_le (raw_skip P f) (Fin (of_int MaxUint32)) then word_of_int \<lfloor>val (raw_skip P f)\<rfloor>
       else word_of_int MaxUint32)"
    and "f64_le (raw_skip P f) (Fin (of_int MaxUint32)) \<Longrightarrow>
      of_int (uint (skipCount (resetSkipCount P f))) = val (raw_skip P f)"
proof -
  have nn: "\<not> f64_lt (raw_skip P f) (Fin 0)"
    if le: "f64_le (raw_skip P f) (Fin (of_int MaxUint32))"
  proof
    assume "f64_lt (raw_skip P f) (Fin 0)"
    then have "\<not> representable (raw_skip P f)"
      unfolding raw_skip_def by (rule floor_negative_not_representable)
    moreover have "representable (raw_skip P f)"
      using assms(3,4,5) le by (rule conversion_in_range)
    ultimately show False by simp
  qed
  show "skipCount (resetSkipCount P f) =
      (if f64_le (raw_skip P f) (Fin (of_int MaxUint32)) then word_of_int \<lfloor>val (raw_skip P f)\<rfloor>
       else word_of_int MaxUint32)"
    using nn by (subst resetSkipCount_common(1) [OF assms(1,2)]) simp
  show "of_int (uint (skipCount (resetSkipCount P f))) = val (raw_skip P f)"
    if "f64_le (raw_skip P f) (Fin (of_int MaxUint32))"
    using that nn [OF that] by (rule resetSkipCount_common(2) [OF assms(1,2)])
qed

text \<open>
  C9. The claim is that for every probability strictly between 0 and 1 a derivation draws
  one value, and stores \<open>raw\<close> when \<open>raw\<close> is at most the maximum and the maximum otherwise.
  One value is drawn, but for a probability below \<open>2 ^ (- 54)\<close> the struct \<open>New\<close> builds has
  the cached factor \<open>+Inf\<close>; every draw with a negative logarithm gives \<open>raw = -Inf\<close>, the
  guard \<open>raw <= math.MaxUint32\<close> holds, and \<open>skipCount\<close> becomes the platform's conversion of
  \<open>-Inf\<close>, which is neither \<open>raw\<close> nor the maximum.
\<close>

theorem derivation_with_infinite_factor:
  assumes "0 < p" and "p < 1 / 2 ^ 54"
    and "f64_lt (math_Log P (draws g (used g))) (Fin 0)"
  shows "f64_lt (Fin 0) (probability (fresh P (Fin p) (Some g))) \<and>
     f64_lt (probability (fresh P (Fin p) (Some g))) (Fin 1) \<and>
     invLogNotProbability (fresh P (Fin p) (Some g)) = PInf \<and>
     raw_skip P (fresh P (Fin p) (Some g)) = NInf \<and>
     f64_le (raw_skip P (fresh P (Fin p) (Some g))) (Fin (of_int MaxUint32)) \<and>
     resetSkipCount P (fresh P (Fin p) (Some g)) =
       (fresh P (Fin p) (Some g))\<lparr>r := g\<lparr>used := Suc (used g)\<rparr>,
          skipCount := convOutOfRange P NInf\<rparr>"
proof -
  let ?f0 = "fresh P (Fin p) (Some g)"
  have p1: "p < 1" using assms(2) by (rule less_trans) simp
  have rng: "f64_lt (Fin 0) (probability ?f0)" "f64_lt (probability ?f0) (Fin 1)"
    using assms(1) p1 by (simp_all add: fresh_def f64_lt_def val_def)
  from strictly_between [OF rng]
  have ne: "\<not> f64_eq (probability ?f0) (Fin 0)" "\<not> f64_eq (probability ?f0) (Fin 1)"
    by simp_all
  have sub: "f64_sub (Fin 1) (Fin p) = Fin 1"
    using p1 one_minus_tiny [OF assms(1,2)] by (simp add: f64_sub_def val_def)
  have inv: "invLogNotProbability ?f0 = PInf"
    unfolding fresh_def sub
    by (simp add: math_Log_def f64_div_def is_inf_def is_zero_def is_neg_def signed_inf_def)
  have src: "r ?f0 = g" by (simp add: fresh_def)
  have raw: "raw_skip P ?f0 = NInf"
    unfolding raw_skip_def inv src
    using assms(3) by (simp add: f64_mul_PInf_negative math_Floor_def)
  have le: "f64_le NInf (Fin (of_int MaxUint32))" by (simp add: f64_le_def)
  have lt: "f64_lt NInf (Fin 0)" by (simp add: f64_lt_def)
  have "resetSkipCount P ?f0 =
       ?f0\<lparr>r := g\<lparr>used := Suc (used g)\<rparr>, skipCount := convOutOfRange P NInf\<rparr>"
    by (subst resetSkipCount_common(1) [OF ne]) (simp add: raw le lt src)
  with rng inv raw le show ?thesis by simp
qed

theorem derivation_with_infinite_factor_witness:
  "(0 :: rat) < 1 / 2 ^ 60 \<and> (1 :: rat) / 2 ^ 60 < 1 / 2 ^ 54 \<and>
   f64_lt (math_Log toy_platform (Fin (1 / 2))) (Fin 0) \<and>
   raw_skip toy_platform
     (fresh toy_platform (Fin (1 / 2 ^ 60)) (Some (constant_source (Fin (1 / 2))))) = NInf \<and>
   skipCount (resetSkipCount toy_platform
     (fresh toy_platform (Fin (1 / 2 ^ 60)) (Some (constant_source (Fin (1 / 2)))))) = 0 \<and>
   (0 :: 32 word) \<noteq> word_of_int MaxUint32"
proof -
  have a: "(0 :: rat) < 1 / 2 ^ 60" "(1 :: rat) / 2 ^ 60 < 1 / 2 ^ 54" by simp_all
  have l: "f64_lt (math_Log toy_platform (draws (constant_source (Fin (1 / 2)))
      (used (constant_source (Fin (1 / 2)))))) (Fin 0)"
    by (simp add: constant_source_def toy_Log_half f64_lt_def val_def)
  have c: "convOutOfRange toy_platform NInf = 0" by (simp add: toy_platform_def)
  from derivation_with_infinite_factor [OF a l] l show ?thesis
    by (simp add: c constant_source_def MaxUint32_def)
qed

text \<open>
  C10. The claim is that the conversion \<open>uint32(skipCount)\<close> is never applied to a value
  outside the range of \<open>uint32\<close>. For a probability between 0 and \<open>2 ^ (- 54)\<close> the difference
  \<open>1.0 - probability\<close> rounds to 1, its logarithm is 0 and the cached factor is \<open>+Inf\<close>, not
  the negative value the comment on the field promises. Any draw with a negative logarithm
  then gives \<open>raw = -Inf\<close>, which passes the guard \<open>raw <= math.MaxUint32\<close>, and \<open>skipCount\<close>
  is whatever the platform makes of \<open>uint32(-Inf)\<close>.
\<close>

theorem tiny_probability_converts_minus_infinity:
  assumes "0 < p" and "p < 1 / 2 ^ 54"
    and "f64_lt (math_Log P (draws g (used g))) (Fin 0)"
  shows "New P (Fin p) (Some g) = Inr
       \<lparr>probability = Fin p, invLogNotProbability = PInf,
        r = g\<lparr>used := Suc (used g)\<rparr>, skipCount = convOutOfRange P NInf\<rparr> \<and>
     raw_skip P \<lparr>probability = Fin p, invLogNotProbability = PInf, r = g, skipCount = 0\<rparr> = NInf \<and>
     f64_le NInf (Fin (of_int MaxUint32)) \<and> \<not> representable NInf"
proof -
  have p1: "p < 1" using assms(2) by (rule less_trans) simp
  have rng: "\<not> f64_lt (Fin p) (Fin 0)" "\<not> f64_gt (Fin p) (Fin 1)"
    using assms(1) p1 by (simp_all add: f64_lt_def f64_gt_def val_def)
  have ne: "\<not> f64_eq (Fin p) (Fin 0)" "\<not> f64_eq (Fin p) (Fin 1)"
    using assms(1) p1 by (simp_all add: f64_eq_def is_inf_def val_def)
  have sub: "f64_sub (Fin 1) (Fin p) = Fin 1"
    using p1 one_minus_tiny [OF assms(1,2)] by (simp add: f64_sub_def val_def)
  have inv: "f64_div (Fin 1) (math_Log P (f64_sub (Fin 1) (Fin p))) = PInf"
    unfolding sub
    by (simp add: math_Log_def f64_div_def is_inf_def is_zero_def is_neg_def signed_inf_def)
  have raw: "math_Floor (f64_mul (math_Log P (draws g (used g))) PInf) = NInf"
    using assms(3) by (simp add: f64_mul_PInf_negative math_Floor_def)
  have le: "f64_le NInf (Fin (of_int MaxUint32))" by (simp add: f64_le_def)
  have nr: "\<not> representable NInf" by (simp add: representable_def)
  have "New P (Fin p) (Some g) = Inr
       \<lparr>probability = Fin p, invLogNotProbability = PInf,
        r = g\<lparr>used := Suc (used g)\<rparr>, skipCount = convOutOfRange P NInf\<rparr>"
    unfolding New_ok [OF rng] inv
    by (simp add: resetSkipCount_def ne Float64_def raw le uint32_def nr)
  then show ?thesis
    using raw le nr by (simp add: raw_skip_def)
qed

theorem tiny_probability_converts_minus_infinity_witness:
  "(0 :: rat) < 1 / 2 ^ 60 \<and> (1 :: rat) / 2 ^ 60 < 1 / 2 ^ 54 \<and>
   f64_lt (math_Log toy_platform (Fin (1 / 2))) (Fin 0) \<and>
   New toy_platform (Fin (1 / 2 ^ 60)) (Some (constant_source (Fin (1 / 2)))) = Inr
       \<lparr>probability = Fin (1 / 2 ^ 60), invLogNotProbability = PInf,
        r = \<lparr>draws = (\<lambda>i. Fin (1 / 2)), used = 1\<rparr>, skipCount = 0\<rparr>"
proof -
  have a: "(0 :: rat) < 1 / 2 ^ 60" "(1 :: rat) / 2 ^ 60 < 1 / 2 ^ 54" by simp_all
  have l: "f64_lt (math_Log toy_platform (draws (constant_source (Fin (1 / 2)))
      (used (constant_source (Fin (1 / 2)))))) (Fin 0)"
    by (simp add: constant_source_def toy_Log_half f64_lt_def val_def)
  have c: "convOutOfRange toy_platform NInf = 0" by (simp add: toy_platform_def)
  from tiny_probability_converts_minus_infinity [OF a l] l show ?thesis
    by (simp add: c constant_source_def)
qed

end
